theory Spec2Isabelle
  imports Complex_Main "HOL-Library.Word" "HOL-Library.Sublist"
begin

section \<open>Data model of the VideoConverter component\<close>

text \<open>
  The component keeps its data in React state values and two refs. A \<open>File\<close> is the
  browser's file object (its name and its bytes), a \<open>Blob\<close> is a byte buffer with a
  declared media type, and \<open>ConvertedFile\<close> is the interface of the same name in the
  source. A blob URL is an opaque unique string handed out by the browser; it is
  modelled by the number of the allocation that produced it.
\<close>

type_synonym bytes = "8 word list"

record File =
  file_name :: string
  file_data :: bytes

record Blob =
  blob_data :: bytes
  blob_type :: string

record ConvertedFile =
  blob :: Blob
  name :: string
  url :: nat

section \<open>String helpers of the JavaScript runtime\<close>

text \<open>
  \<open>s.split(".")\<close> cuts \<open>s\<close> at every occurrence of the separator and always returns
  at least one piece (the empty string gives one empty piece).
\<close>

fun split_from :: "char \<Rightarrow> string \<Rightarrow> string \<Rightarrow> string list" where
  "split_from c cur [] = [cur]"
| "split_from c cur (x # xs) =
     (if x = c then cur # split_from c [] xs else split_from c (cur @ [x]) xs)"

definition split_str :: "string \<Rightarrow> char \<Rightarrow> string list" where
  "split_str s c = split_from c [] s"

text \<open>
  \<open>pop()\<close> and \<open>[0]\<close> give \<open>undefined\<close> on an empty array, which a template literal
  prints as the text \<open>undefined\<close>.
\<close>

definition pop :: "string list \<Rightarrow> string" where
  "pop xs = (if xs = [] then ''undefined'' else last xs)"

definition first_elem :: "string list \<Rightarrow> string" where
  "first_elem xs = (case xs of [] \<Rightarrow> ''undefined'' | x # _ \<Rightarrow> x)"

section \<open>Names and command line of a conversion\<close>

definition inputName :: "File \<Rightarrow> string" where
  "inputName file = ''input.'' @ pop (split_str (file_name file) CHR ''.'')"

definition outputName :: "string \<Rightarrow> string" where
  "outputName outputFormat = ''output.'' @ outputFormat"

text \<open>
  The argument array handed to \<open>ffmpeg.exec\<close>: the array literal, the tokens pushed by
  the \<open>switch\<close> on the output format, and the final push of the output name.
\<close>

definition command :: "string \<Rightarrow> string \<Rightarrow> string list" where
  "command inName outputFormat =
     [''-i'', inName, ''-c:v'', ''libx264'', ''-c:a'', ''aac'', ''-preset'', ''medium'',
      outputName outputFormat]
     @ (if outputFormat = ''mp4'' then
          [''-c:v'', ''libx264'', ''-c:a'', ''aac'', ''-preset'', ''medium'']
        else if outputFormat = ''webm'' then [''-c:v'', ''libvpx-vp9'', ''-c:a'', ''libopus'']
        else if outputFormat = ''avi'' then [''-c:v'', ''libx264'', ''-c:a'', ''mp3'']
        else if outputFormat = ''mov'' then [''-c:v'', ''libx264'', ''-c:a'', ''aac'']
        else if outputFormat = ''mkv'' then [''-c:v'', ''libx264'', ''-c:a'', ''aac'']
        else [''-c:v'', ''libx264'', ''-c:a'', ''aac''])
     @ [outputName outputFormat]"

definition blobType :: "string \<Rightarrow> string" where
  "blobType outputFormat = ''video/'' @ outputFormat"

definition convertedName :: "File \<Rightarrow> string \<Rightarrow> string" where
  "convertedName file outputFormat =
     first_elem (split_str (file_name file) CHR ''.'') @ '' .  '' @ outputFormat"

section \<open>JavaScript numbers\<close>

text \<open>
  A JavaScript number is an IEEE 754 binary64 value: a finite value (the two zeros are
  not told apart, nothing in the component can), an infinity or NaN.
\<close>

datatype number = Num rat | PosInfinity | NegInfinity | NaN

text \<open>The number of binary digits of a positive integer.\<close>

function bitlen :: "int \<Rightarrow> nat" where
  "bitlen x = (if 0 < x then Suc (bitlen (x div 2)) else 0)"
  by pat_completeness auto
termination
  by (relation "measure nat") auto

declare bitlen.simps [simp del]

text \<open>
  The binary exponent of a positive rational \<open>a\<close>, that is the \<open>k\<close> with
  \<open>2^k \<le> a < 2^(k+1)\<close>: the digits of numerator and denominator give it up to one,
  and a comparison settles it.
\<close>

definition ilog2 :: "rat \<Rightarrow> int" where
  "ilog2 a =
     (case quotient_of a of
        (p, q) \<Rightarrow>
          (let k = int (bitlen p) - int (bitlen q)
           in if 2 powi k \<le> a then k else k - 1))"

definition round_half_even :: "rat \<Rightarrow> int" where
  "round_half_even q =
     (if q - of_int \<lfloor>q\<rfloor> < 1 / 2 then \<lfloor>q\<rfloor>
      else if 1 / 2 < q - of_int \<lfloor>q\<rfloor> then \<lfloor>q\<rfloor> + 1
      else if even \<lfloor>q\<rfloor> then \<lfloor>q\<rfloor> else \<lfloor>q\<rfloor> + 1)"

text \<open>
  Rounding to binary64, to the nearest value and to the even significand on a tie. A
  positive \<open>a\<close> is rounded on the grid of the multiples of \<open>2^e\<close>, where \<open>e\<close> leaves a
  significand of 53 binary digits and is at least -1074, the exponent of the
  subnormal values. A result of \<open>2^1024\<close> or more is an infinity.
\<close>

definition double_exponent :: "rat \<Rightarrow> int" where
  "double_exponent a = max (- 1074) (ilog2 a - 52)"

definition nearest_double :: "rat \<Rightarrow> rat" where
  "nearest_double a =
     of_int (round_half_even (a / 2 powi double_exponent a)) * 2 powi double_exponent a"

definition to_double :: "rat \<Rightarrow> number" where
  "to_double x =
     (if x = 0 then Num 0
      else if 2 ^ 1024 \<le> nearest_double \<bar>x\<bar>
        then (if 0 < x then PosInfinity else NegInfinity)
      else Num (sgn x * nearest_double \<bar>x\<bar>))"

text \<open>The operator \<open>*\<close> on numbers: the exact product, rounded.\<close>

fun negate :: "number \<Rightarrow> number" where
  "negate (Num a) = Num (- a)"
| "negate PosInfinity = NegInfinity"
| "negate NegInfinity = PosInfinity"
| "negate NaN = NaN"

fun times_number :: "number \<Rightarrow> number \<Rightarrow> number" where
  "times_number NaN y = NaN"
| "times_number x NaN = NaN"
| "times_number (Num a) (Num b) = to_double (a * b)"
| "times_number (Num a) y = (if a = 0 then NaN else if 0 < a then y else negate y)"
| "times_number x (Num b) = (if b = 0 then NaN else if 0 < b then x else negate x)"
| "times_number x y = (if x = y then PosInfinity else NegInfinity)"

text \<open>
  \<open>Math.round\<close> gives the nearest integer, the upper one of two that are equally
  near; it keeps the infinities and NaN.
\<close>

fun Math_round :: "number \<Rightarrow> number" where
  "Math_round (Num x) = Num (of_int \<lfloor>x + 1 / 2\<rfloor>)"
| "Math_round x = x"

text \<open>The comparison \<open><=\<close> on numbers, which is false whenever NaN takes part.\<close>

fun le_number :: "number \<Rightarrow> number \<Rightarrow> bool" where
  "le_number NaN y = False"
| "le_number x NaN = False"
| "le_number (Num a) (Num b) = (a \<le> b)"
| "le_number NegInfinity y = True"
| "le_number x PosInfinity = True"
| "le_number x y = False"

section \<open>Component state\<close>

text \<open>
  An asynchronous call of the component that is suspended at an \<open>await\<close>: the load
  waiting for the dynamic imports, the load waiting for \<open>ffmpeg.load\<close>, and a
  conversion waiting for the engine, together with the \<open>file\<close> and \<open>outputFormat\<close>
  its closure captured when it was started.
\<close>

datatype task = AwaitImport | AwaitLoad | AwaitConvert File string

text \<open>
  The first eight fields are the \<open>useState\<close> values of the component and
  \<open>ffmpegRef\<close> is its ref to the engine instance (instances are numbered in the order
  of their creation). The remaining fields are the part of the browser the component
  acts on: the value of the file input element, the blob URLs that are registered and
  not revoked, the number of engine instances created so far, the downloads triggered,
  and the suspended asynchronous calls.
\<close>

record state =
  "file" :: "File option"
  outputFormat :: string
  isLoading :: bool
  isFFmpegLoaded :: bool
  progress :: number
  convertedFile :: "ConvertedFile option"
  error :: string
  logs :: "string list"
  ffmpegRef :: "nat option"
  fileInputValue :: string
  objectURLs :: "(nat \<times> Blob) list"
  instances :: nat
  downloads :: "(nat \<times> string) list"
  pending :: "task list"

definition initial :: state where
  "initial = \<lparr>file = None, outputFormat = ''mp4'', isLoading = False,
     isFFmpegLoaded = False, progress = Num 0, convertedFile = None, error = [],
     logs = [], ffmpegRef = None, fileInputValue = [], objectURLs = [],
     instances = 0, downloads = [], pending = []\<rparr>"

section \<open>The engine as seen by the component\<close>

text \<open>
  The engine is an external collaborator. Each of its calls either throws (the message
  of the thrown value is kept) or returns; \<open>load\<close> and \<open>exec\<close> also emit log and
  progress events while they run. The progress ratio of an event is a number.
\<close>

datatype engine_event = LogEvent string | ProgressEvent number

record engine =
  importFFmpeg :: "string option"
  importUtil :: "string option"
  load :: "engine_event list \<times> string option"
  fetchFile :: "File \<Rightarrow> string + bytes"
  writeFile :: "string \<Rightarrow> bytes \<Rightarrow> string option"
  exec :: "string list \<Rightarrow> engine_event list \<times> string option"
  readFile :: "string \<Rightarrow> string + bytes"

text \<open>\<open>xs.slice(-n)\<close>: the last \<open>n\<close> elements, all of them when there are fewer.\<close>

definition slice_last :: "nat \<Rightarrow> 'a list \<Rightarrow> 'a list" where
  "slice_last n xs = drop (length xs - n) xs"

text \<open>The two handlers registered on the engine instance in \<open>loadFFmpeg\<close>.\<close>

definition on_log :: "string \<Rightarrow> state \<Rightarrow> state" where
  "on_log message s = s\<lparr>logs := slice_last 10 (logs s) @ [message]\<rparr>"

definition on_progress :: "number \<Rightarrow> state \<Rightarrow> state" where
  "on_progress ratio s = s\<lparr>progress := Math_round (times_number ratio (Num 100))\<rparr>"

fun emit :: "engine_event \<Rightarrow> state \<Rightarrow> state" where
  "emit (LogEvent message) s = on_log message s"
| "emit (ProgressEvent ratio) s = on_progress ratio s"

section \<open>loadFFmpeg\<close>

text \<open>
  The call up to its first \<open>await\<close>, the steps after the imports and after
  \<open>ffmpeg.load\<close>, and the \<open>catch\<close> and \<open>finally\<close> blocks.
\<close>

definition loadFFmpeg_begin :: "state \<Rightarrow> state" where
  "loadFFmpeg_begin s =
     (if isFFmpegLoaded s then s
      else s\<lparr>isLoading := True, logs := logs s @ [''Loading FFmpeg...'']\<rparr>)"

definition loadFFmpeg_finally :: "state \<Rightarrow> state" where
  "loadFFmpeg_finally s = s\<lparr>isLoading := False\<rparr>"

definition loadFFmpeg_catch :: "string \<Rightarrow> state \<Rightarrow> state" where
  "loadFFmpeg_catch errorMsg s =
     loadFFmpeg_finally
       (s\<lparr>error := ''Failed to load FFmpeg: '' @ errorMsg,
          logs := logs s @ [''Error loading FFmpeg: '' @ errorMsg]\<rparr>)"

definition loadFFmpeg_imported :: "state \<Rightarrow> state" where
  "loadFFmpeg_imported s =
     s\<lparr>ffmpegRef := Some (instances s), instances := Suc (instances s)\<rparr>"

definition loadFFmpeg_loaded :: "state \<Rightarrow> state" where
  "loadFFmpeg_loaded s =
     loadFFmpeg_finally
       (s\<lparr>isFFmpegLoaded := True, logs := logs s @ [''FFmpeg loaded successfully!'']\<rparr>)"

text \<open>The whole call against a given engine, with nothing else happening meanwhile.\<close>

definition loadFFmpeg :: "engine \<Rightarrow> state \<Rightarrow> state" where
  "loadFFmpeg eng s =
     (if isFFmpegLoaded s then s
      else let s1 = loadFFmpeg_begin s in
        case importFFmpeg eng of Some errorMsg \<Rightarrow> loadFFmpeg_catch errorMsg s1
        | None \<Rightarrow>
        (case importUtil eng of Some errorMsg \<Rightarrow> loadFFmpeg_catch errorMsg s1
         | None \<Rightarrow>
         (case load eng of
            (evs, Some errorMsg) \<Rightarrow>
              loadFFmpeg_catch errorMsg (fold emit evs (loadFFmpeg_imported s1))
          | (evs, None) \<Rightarrow> loadFFmpeg_loaded (fold emit evs (loadFFmpeg_imported s1)))))"

section \<open>handleFileSelect, resetConverter, downloadFile\<close>

definition handleFileSelect :: "File option \<Rightarrow> state \<Rightarrow> state" where
  "handleFileSelect selectedFile s =
     (case selectedFile of
        None \<Rightarrow> s
      | Some f \<Rightarrow>
          s\<lparr>file := Some f, convertedFile := None, error := [], progress := Num 0, logs := []\<rparr>)"

text \<open>
  \<open>fileInputRef.current\<close> is the file input element, which is mounted exactly when
  the engine is loaded.
\<close>

definition resetConverter :: "state \<Rightarrow> state" where
  "resetConverter s =
     s\<lparr>file := None, convertedFile := None, error := [], progress := Num 0, logs := [],
       fileInputValue := (if isFFmpegLoaded s then [] else fileInputValue s)\<rparr>"

definition downloadFile :: "state \<Rightarrow> state" where
  "downloadFile s =
     (case convertedFile s of
        None \<Rightarrow> s
      | Some c \<Rightarrow> s\<lparr>downloads := downloads s @ [(url c, name c)]\<rparr>)"

section \<open>convertVideo\<close>

text \<open>
  \<open>URL.createObjectURL\<close> registers the blob under a fresh URL. The source never calls
  \<open>URL.revokeObjectURL\<close>, so the registry only grows and its length is a fresh number.
\<close>

definition createObjectURL :: "Blob \<Rightarrow> state \<Rightarrow> nat \<times> state" where
  "createObjectURL b s =
     (length (objectURLs s), s\<lparr>objectURLs := objectURLs s @ [(length (objectURLs s), b)]\<rparr>)"

text \<open>The call up to its first \<open>await\<close>: the guard and the four updates.\<close>

definition convertVideo_begin :: "state \<Rightarrow> state" where
  "convertVideo_begin s =
     (if file s = None \<or> \<not> isFFmpegLoaded s then s
      else s\<lparr>isLoading := True, error := [], progress := Num 0,
             logs := logs s @ [''Starting conversion to '' @ outputFormat s @ ''...'']\<rparr>)"

text \<open>
  The awaited calls of the \<open>try\<close> block in their order: the events the engine emitted
  and either the message of the first thrown value or the bytes read back.
\<close>

definition engine_calls ::
  "engine \<Rightarrow> File \<Rightarrow> string \<Rightarrow> engine_event list \<times> (string + bytes)" where
  "engine_calls eng f fmt =
     (case importUtil eng of Some e \<Rightarrow> ([], Inl e)
      | None \<Rightarrow>
      (case fetchFile eng f of Inl e \<Rightarrow> ([], Inl e)
       | Inr input \<Rightarrow>
       (case writeFile eng (inputName f) input of Some e \<Rightarrow> ([], Inl e)
        | None \<Rightarrow>
        (case exec eng (command (inputName f) fmt) of
           (evs, Some e) \<Rightarrow> (evs, Inl e)
         | (evs, None) \<Rightarrow>
           (case readFile eng (outputName fmt) of
              Inl e \<Rightarrow> (evs, Inl e)
            | Inr data \<Rightarrow> (evs, Inr data))))))"

definition convertVideo_finally :: "state \<Rightarrow> state" where
  "convertVideo_finally s = s\<lparr>isLoading := False, progress := Num 0\<rparr>"

text \<open>
  The rest of the call once the awaited calls have settled, for the file and format
  captured at its start: the end of the \<open>try\<close> block or the \<open>catch\<close> block, then
  \<open>finally\<close>.
\<close>

definition convertVideo_settled :: "File \<Rightarrow> string \<Rightarrow> string + bytes \<Rightarrow> state \<Rightarrow> state" where
  "convertVideo_settled f fmt outcome s =
     (case outcome of
        Inr data \<Rightarrow>
          (let b = \<lparr>blob_data = data, blob_type = blobType fmt\<rparr>;
               (u, s1) = createObjectURL b s
           in convertVideo_finally
                (s1\<lparr>convertedFile := Some \<lparr>blob = b, name = convertedName f fmt, url = u\<rparr>,
                    logs := logs s1 @ [''Conversion completed successfully!'']\<rparr>))
      | Inl errorMsg \<Rightarrow>
          convertVideo_finally
            (s\<lparr>error := ''Failed to load FFmpeg: '' @ errorMsg,
               logs := logs s @ [''Error loading FFmpeg: '' @ errorMsg]\<rparr>))"

text \<open>The whole call against a given engine, with nothing else happening meanwhile.\<close>

definition convertVideo :: "engine \<Rightarrow> state \<Rightarrow> state" where
  "convertVideo eng s =
     (case file s of
        None \<Rightarrow> s
      | Some f \<Rightarrow>
          if \<not> isFFmpegLoaded s then s
          else (case engine_calls eng f (outputFormat s) of
                  (evs, outcome) \<Rightarrow>
                    convertVideo_settled f (outputFormat s) outcome
                      (fold emit evs (convertVideo_begin s))))"

section \<open>The rendered panel as an event system\<close>

text \<open>
  What the user and the engine can do to the component. A control reacts only when it
  is rendered and not disabled: the load button is rendered while the engine is not
  loaded and disabled while \<open>isLoading\<close>; the file input is rendered once the engine
  is loaded; the format selector and the reset button are rendered while a file is
  selected; the convert button is rendered while a file is selected and the engine is
  loaded, and disabled while \<open>isLoading\<close>; the download button is rendered while a
  converted file exists. \<open>Settles i r\<close> is the \<open>i\<close>-th suspended call being resumed
  with the result \<open>r\<close> of what it awaited. On a selection the browser puts the
  file's name into the value of the file input (after a fixed directory prefix, left
  out here).
\<close>

definition formats :: "string list" where
  "formats = [''mp4'', ''webm'', ''avi'', ''mov'', ''mkv'']"

datatype event =
    ClickLoad
  | ChooseFile "File option"
  | ChooseFormat string
  | ClickConvert
  | ClickReset
  | ClickDownload
  | Emits engine_event
  | Settles nat "string + bytes"

fun resume :: "task \<Rightarrow> string + bytes \<Rightarrow> state \<Rightarrow> state" where
  "resume AwaitImport r s =
     (case r of
        Inl errorMsg \<Rightarrow> loadFFmpeg_catch errorMsg s
      | Inr _ \<Rightarrow> (loadFFmpeg_imported s)\<lparr>pending := pending s @ [AwaitLoad]\<rparr>)"
| "resume AwaitLoad r s =
     (case r of
        Inl errorMsg \<Rightarrow> loadFFmpeg_catch errorMsg s
      | Inr _ \<Rightarrow> loadFFmpeg_loaded s)"
| "resume (AwaitConvert f fmt) r s = convertVideo_settled f fmt r s"

fun step :: "state \<Rightarrow> event \<Rightarrow> state" where
  "step s ClickLoad =
     (if \<not> isFFmpegLoaded s \<and> \<not> isLoading s
      then (loadFFmpeg_begin s)\<lparr>pending := pending s @ [AwaitImport]\<rparr>
      else s)"
| "step s (ChooseFile selectedFile) =
     (if isFFmpegLoaded s
      then handleFileSelect selectedFile
             (case selectedFile of
                None \<Rightarrow> s
              | Some f \<Rightarrow> s\<lparr>fileInputValue := file_name f\<rparr>)
      else s)"
| "step s (ChooseFormat v) =
     (if file s \<noteq> None \<and> v \<in> set formats then s\<lparr>outputFormat := v\<rparr> else s)"
| "step s ClickConvert =
     (case file s of
        None \<Rightarrow> s
      | Some f \<Rightarrow>
          if isFFmpegLoaded s \<and> \<not> isLoading s
          then (convertVideo_begin s)\<lparr>pending := pending s @ [AwaitConvert f (outputFormat s)]\<rparr>
          else s)"
| "step s ClickReset = (if file s \<noteq> None then resetConverter s else s)"
| "step s ClickDownload = (if convertedFile s \<noteq> None then downloadFile s else s)"
| "step s (Emits e) = (if ffmpegRef s \<noteq> None then emit e s else s)"
| "step s (Settles i r) =
     (if i < length (pending s)
      then resume (pending s ! i) r (s\<lparr>pending := take i (pending s) @ drop (Suc i) (pending s)\<rparr>)
      else s)"

definition run :: "event list \<Rightarrow> state" where
  "run evs = foldl step initial evs"

text \<open>
  The states the panel goes through along a list of events, the events that neither
  end a running job nor are a reset or a file selection by the user, and the ratios
  the engine reports in a list of events.
\<close>

fun step_trace :: "state \<Rightarrow> event list \<Rightarrow> state list" where
  "step_trace s [] = []"
| "step_trace s (e # es) = step s e # step_trace (step s e) es"

fun quiet :: "event \<Rightarrow> bool" where
  "quiet ClickReset = False"
| "quiet (ChooseFile selectedFile) = (selectedFile = None)"
| "quiet (Settles i r) = False"
| "quiet e = True"

fun reported :: "event list \<Rightarrow> number list" where
  "reported [] = []"
| "reported (Emits (ProgressEvent ratio) # es) = ratio # reported es"
| "reported (e # es) = reported es"

text \<open>Whether a load, or a conversion, is in flight.\<close>

fun is_load :: "task \<Rightarrow> bool" where
  "is_load AwaitImport = True"
| "is_load AwaitLoad = True"
| "is_load (AwaitConvert f fmt) = False"

fun is_convert :: "task \<Rightarrow> bool" where
  "is_convert (AwaitConvert f fmt) = True"
| "is_convert t = False"

section \<open>The command shape of the interface description\<close>

text \<open>
  The shape \<open>-i <input> [-c:v <codec>] [-c:a <codec>] [-preset <name>] <output>\<close> as
  the interface description words it, for comparison with \<open>command\<close>: after the input
  pair, each optional flag group is taken off at most once, in this order, and exactly
  the output name is left.
\<close>

fun opt_group :: "string \<Rightarrow> string list \<Rightarrow> string list" where
  "opt_group flag (x # y # rest) = (if x = flag then rest else x # y # rest)"
| "opt_group flag xs = xs"

definition spec_shape :: "string \<Rightarrow> string \<Rightarrow> string list \<Rightarrow> bool" where
  "spec_shape inp out args =
     (case args of
        a # b # rest \<Rightarrow>
          a = ''-i'' \<and> b = inp \<and>
          opt_group ''-preset'' (opt_group ''-c:a'' (opt_group ''-c:v'' rest)) = [out]
      | _ \<Rightarrow> False)"

section \<open>Sample files, engines and sessions\<close>

definition clip_mov :: File where
  "clip_mov = \<lparr>file_name = ''clip.mov'', file_data = [1, 2, 3]\<rparr>"

definition holiday_avi :: File where
  "holiday_avi = \<lparr>file_name = ''holiday.avi'', file_data = [4, 5]\<rparr>"

text \<open>An engine whose calls all succeed, and one whose \<open>exec\<close> throws.\<close>

definition working_engine :: "bytes \<Rightarrow> engine" where
  "working_engine out =
     \<lparr>importFFmpeg = None, importUtil = None, load = ([], None),
      fetchFile = (\<lambda>f. Inr (file_data f)), writeFile = (\<lambda>n d. None),
      exec = (\<lambda>args. ([ProgressEvent (Num (1 / 2)), ProgressEvent (Num 1)], None)),
      readFile = (\<lambda>n. Inr out)\<rparr>"

definition failing_engine :: "string \<Rightarrow> engine" where
  "failing_engine msg =
     \<lparr>importFFmpeg = None, importUtil = None, load = ([], None),
      fetchFile = (\<lambda>f. Inr (file_data f)), writeFile = (\<lambda>n d. None),
      exec = (\<lambda>args. ([ProgressEvent (Num (1 / 4))], Some msg)),
      readFile = (\<lambda>n. Inl ''no such file'')\<rparr>"

text \<open>
  The engine is loaded and \<open>clip.mov\<close> is chosen; then it is converted to webm; then a
  second conversion of the same file fails.
\<close>

definition ready_session :: "event list" where
  "ready_session =
     [ClickLoad, Settles 0 (Inr []), Settles 0 (Inr []), ChooseFile (Some clip_mov)]"

definition converted_session :: "event list" where
  "converted_session =
     ready_session @ [ChooseFormat ''webm'', ClickConvert, Settles 0 (Inr [7])]"

definition failed_session :: "event list" where
  "failed_session = converted_session @ [ClickConvert, Settles 0 (Inl ''boom'')]"

text \<open>
  What happens during one job: the engine logs and reports progress, and meanwhile the
  user changes the format, clicks the disabled convert button and downloads.
\<close>

definition job_events :: "event list" where
  "job_events =
     [Emits (LogEvent ''frame=1''), Emits (ProgressEvent (Num (1 / 4))), ChooseFormat ''avi'',
      ClickConvert, Emits (ProgressEvent (Num (1 / 2))), ClickDownload,
      Emits (ProgressEvent (Num 1))]"

definition webm_artifact :: ConvertedFile where
  "webm_artifact =
     \<lparr>blob = \<lparr>blob_data = [7], blob_type = ''video/webm''\<rparr>, name = ''clip .  webm'', url = 0\<rparr>"

section \<open>Evaluation of the model\<close>

lemmas model_defs = loadFFmpeg_begin_def loadFFmpeg_finally_def
  loadFFmpeg_catch_def loadFFmpeg_imported_def loadFFmpeg_loaded_def handleFileSelect_def
  resetConverter_def downloadFile_def createObjectURL_def convertVideo_begin_def
  convertVideo_finally_def convertVideo_settled_def on_log_def on_progress_def
  slice_last_def formats_def blobType_def convertedName_def
  first_elem_def pop_def split_str_def inputName_def outputName_def command_def Let_def

lemmas sample_defs = clip_mov_def holiday_avi_def ready_session_def converted_session_def
  failed_session_def job_events_def webm_artifact_def

lemma run_snoc: "run (evs @ [e]) = step (run evs) e"
  by (simp add: run_def)

lemma run_append: "run (xs @ ys) = foldl step (run xs) ys"
  by (simp add: run_def)

lemma ready_state:
  "run ready_session =
     \<lparr>file = Some clip_mov, outputFormat = ''mp4'', isLoading = False, isFFmpegLoaded = True,
      progress = Num 0, convertedFile = None, error = [], logs = [], ffmpegRef = Some 0,
      fileInputValue = ''clip.mov'', objectURLs = [], instances = 1, downloads = [],
      pending = []\<rparr>"
  by (simp add: run_def initial_def ready_session_def model_defs clip_mov_def)

lemma converted_state:
  "run converted_session =
     \<lparr>file = Some clip_mov, outputFormat = ''webm'', isLoading = False, isFFmpegLoaded = True,
      progress = Num 0, convertedFile = Some webm_artifact, error = [],
      logs = [''Starting conversion to webm...'', ''Conversion completed successfully!''],
      ffmpegRef = Some 0, fileInputValue = ''clip.mov'',
      objectURLs = [(0, \<lparr>blob_data = [7], blob_type = ''video/webm''\<rparr>)], instances = 1,
      downloads = [], pending = []\<rparr>"
  by (simp add: converted_session_def run_append ready_state model_defs clip_mov_def
        webm_artifact_def)

lemma failed_state:
  "run failed_session =
     \<lparr>file = Some clip_mov, outputFormat = ''webm'', isLoading = False, isFFmpegLoaded = True,
      progress = Num 0, convertedFile = Some webm_artifact, error = ''Failed to load FFmpeg: boom'',
      logs = [''Starting conversion to webm...'', ''Conversion completed successfully!'',
              ''Starting conversion to webm...'', ''Error loading FFmpeg: boom''],
      ffmpegRef = Some 0, fileInputValue = ''clip.mov'',
      objectURLs = [(0, \<lparr>blob_data = [7], blob_type = ''video/webm''\<rparr>)], instances = 1,
      downloads = [], pending = []\<rparr>"
  by (simp add: failed_session_def run_append converted_state model_defs)

section \<open>Properties of the string helpers\<close>

lemma split_from_nonempty: "split_from c cur s \<noteq> []"
  by (induction s arbitrary: cur) auto

lemma split_from_no_sep: "c \<notin> set s \<Longrightarrow> split_from c cur s = [cur @ s]"
  by (induction s arbitrary: cur) auto

lemma last_split_from_append:
  "last (split_from c cur (p @ c # e)) = last (split_from c [] e)"
  by (induction p arbitrary: cur) (auto simp: split_from_nonempty)

section \<open>Properties of the rounding to binary64\<close>

lemma bitlen_Suc: "0 < x \<Longrightarrow> bitlen x = Suc (bitlen (x div 2))"
  by (subst bitlen.simps) simp

lemma bitlen_nonpos: "x \<le> 0 \<Longrightarrow> bitlen x = 0"
  by (subst bitlen.simps) simp

lemma bitlen_bounds:
  "0 < x \<Longrightarrow> 2 ^ (bitlen x - 1) \<le> x \<and> x < 2 ^ bitlen x"
proof (induction x rule: bitlen.induct)
  case (1 x)
  show ?case
  proof (cases "0 < x div 2")
    case False
    with 1(2) have x1: "x = 1" by presburger
    show ?thesis unfolding x1 by (simp add: bitlen_Suc bitlen_nonpos)
  next
    case True
    with 1 have ih: "2 ^ (bitlen (x div 2) - 1) \<le> x div 2" "x div 2 < 2 ^ bitlen (x div 2)"
      by simp_all
    have b: "bitlen x = Suc (bitlen (x div 2))"
      using 1(2) by (rule bitlen_Suc)
    have p: "bitlen (x div 2) = Suc (bitlen (x div 2) - 1)"
      using True by (simp add: bitlen_Suc [of "x div 2"])
    have "2 * 2 ^ (bitlen (x div 2) - 1) \<le> x" using ih(1) by linarith
    then have l: "2 ^ bitlen (x div 2) \<le> x" by (subst p) simp
    have u: "x < 2 * 2 ^ bitlen (x div 2)" using ih(2) by linarith
    show ?thesis unfolding b using l u by simp
  qed
qed


lemma ilog2_bounds:
  assumes "0 < a"
  shows "2 powi ilog2 a \<le> a \<and> a < 2 powi (ilog2 a + 1)"
proof -
  obtain p q where pq: "quotient_of a = (p, q)" by (cases "quotient_of a")
  have q: "0 < q" using pq by (rule quotient_of_denom_pos)
  have a: "a = of_int p / of_int q" using pq by (rule quotient_of_div)
  have p: "0 < p" using assms q unfolding a by (simp add: zero_less_divide_iff)
  define bp where "bp = bitlen p"
  define bq where "bq = bitlen q"
  define k where "k = int bp - int bq"
  have bp: "2 ^ (bp - 1) \<le> p" "p < 2 ^ bp" "bp = Suc (bp - 1)"
    using bitlen_bounds [OF p] bitlen_Suc [OF p] by (simp_all add: bp_def)
  have bq: "2 ^ (bq - 1) \<le> q" "q < 2 ^ bq" "bq = Suc (bq - 1)"
    using bitlen_bounds [OF q] bitlen_Suc [OF q] by (simp_all add: bq_def)
  have rp: "(2::rat) ^ (bp - 1) \<le> of_int p" "of_int p < (2::rat) ^ bp"
    using bp(1,2) by (metis of_int_le_iff of_int_numeral of_int_power, metis of_int_less_iff of_int_numeral of_int_power)
  have rq: "(2::rat) ^ (bq - 1) \<le> of_int q" "of_int q < (2::rat) ^ bq"
    using bq(1,2) by (metis of_int_le_iff of_int_numeral of_int_power, metis of_int_less_iff of_int_numeral of_int_power)
  have up: "(2::rat) powi (k + 1) = 2 ^ bp / 2 ^ (bq - 1)"
  proof -
    have "k + 1 = int bp - int (bq - 1)" using bq(3) by (simp add: k_def)
    then show ?thesis by (simp add: power_int_diff)
  qed
  have lo: "(2::rat) powi (k - 1) = 2 ^ (bp - 1) / 2 ^ bq"
  proof -
    have "k - 1 = int (bp - 1) - int bq" using bp(3) by (simp add: k_def)
    then show ?thesis by (simp add: power_int_diff)
  qed
  have u: "a < 2 powi (k + 1)"
    unfolding up a using rp(2) rq(1) p q by (intro frac_less) simp_all
  have l: "2 powi (k - 1) < a"
    unfolding lo a using rp(1) rq(2) p q by (intro frac_less2) simp_all
  have i: "ilog2 a = (if 2 powi k \<le> a then k else k - 1)"
    by (simp add: ilog2_def pq Let_def k_def bp_def bq_def)
  show ?thesis
  proof (cases "2 powi k \<le> a")
    case True
    with u i show ?thesis by simp
  next
    case False
    with l i show ?thesis by simp
  qed
qed

lemma ilog2_mono:
  assumes "0 < a" and "a \<le> b"
  shows "ilog2 a \<le> ilog2 b"
proof (rule ccontr)
  assume "\<not> ilog2 a \<le> ilog2 b"
  then have "ilog2 b + 1 \<le> ilog2 a" by simp
  then have "(2::rat) powi (ilog2 b + 1) \<le> 2 powi ilog2 a"
    by (intro power_int_increasing) simp_all
  moreover have "0 < b" using assms by simp
  ultimately show False
    using assms ilog2_bounds [of a] ilog2_bounds [of b] by simp
qed

lemma round_half_even_floor:
  "\<lfloor>q\<rfloor> \<le> round_half_even q \<and> round_half_even q \<le> \<lfloor>q\<rfloor> + 1"
  by (simp add: round_half_even_def)

lemma round_half_even_of_int: "round_half_even (of_int n) = n"
  by (simp add: round_half_even_def)

lemma round_half_even_mono:
  assumes "q \<le> r"
  shows "round_half_even q \<le> round_half_even r"
proof (cases "\<lfloor>q\<rfloor> = \<lfloor>r\<rfloor>")
  case True
  with assms show ?thesis by (simp add: round_half_even_def)
next
  case False
  with assms have "\<lfloor>q\<rfloor> + 1 \<le> \<lfloor>r\<rfloor>"
    using floor_mono [of q r] by simp
  with round_half_even_floor [of q] round_half_even_floor [of r] show ?thesis by linarith
qed

lemma nearest_double_mono:
  assumes "0 < a" and "a \<le> b"
  shows "nearest_double a \<le> nearest_double b"
proof -
  have b: "0 < b" using assms by simp
  define ea where "ea = double_exponent a"
  define eb where "eb = double_exponent b"
  have le: "ea \<le> eb"
    using ilog2_mono [OF assms] by (simp add: ea_def eb_def double_exponent_def)
  show ?thesis
  proof (cases "ea = eb")
    case True
    have "a / 2 powi eb \<le> b / 2 powi eb"
      using assms(2) by (simp add: divide_right_mono)
    then have "round_half_even (a / 2 powi eb) \<le> round_half_even (b / 2 powi eb)"
      by (rule round_half_even_mono)
    then have "(of_int (round_half_even (a / 2 powi eb)) :: rat) * 2 powi eb
        \<le> of_int (round_half_even (b / 2 powi eb)) * 2 powi eb"
      by (intro mult_right_mono) simp_all
    then show ?thesis
      using True by (simp add: nearest_double_def ea_def [symmetric] eb_def [symmetric])
  next
    case False
    with le have lt: "ea + 1 \<le> eb" by simp
    have "ilog2 a - 52 \<le> ea" by (simp add: ea_def double_exponent_def)
    then have "ilog2 a + 1 \<le> ea + 53" by simp
    then have "(2::rat) powi (ilog2 a + 1) \<le> 2 powi (ea + 53)"
      by (intro power_int_increasing) simp_all
    with ilog2_bounds [OF assms(1)] have "a < 2 powi (ea + 53)" by simp
    then have "a / 2 powi ea \<le> 2 ^ 53"
      by (simp add: power_int_add divide_le_eq mult.commute)
    then have "round_half_even (a / 2 powi ea) \<le> round_half_even (of_int (2 ^ 53))"
      by (intro round_half_even_mono) simp
    then have ma: "round_half_even (a / 2 powi ea) \<le> 2 ^ 53"
      by (simp only: round_half_even_of_int)
    have "(of_int (round_half_even (a / 2 powi ea)) :: rat) \<le> of_int (2 ^ 53)"
      using ma by (simp only: of_int_le_iff)
    then have "(of_int (round_half_even (a / 2 powi ea)) :: rat) * 2 powi ea \<le> of_int (2 ^ 53) * 2 powi ea"
      by (intro mult_right_mono) simp_all
    then have ua: "nearest_double a \<le> 2 powi (ea + 53)"
      by (simp add: nearest_double_def ea_def [symmetric] power_int_add mult.commute)
    have "- 1074 \<le> ea" by (simp add: ea_def double_exponent_def)
    with lt have "eb = ilog2 b - 52" by (simp add: eb_def double_exponent_def)
    then have "ilog2 b = eb + 52" by simp
    with ilog2_bounds [OF b] have "2 powi (eb + 52) \<le> b" by simp
    then have "2 ^ 52 \<le> b / 2 powi eb"
      by (simp add: power_int_add le_divide_eq mult.commute)
    then have "round_half_even (of_int (2 ^ 52)) \<le> round_half_even (b / 2 powi eb)"
      by (intro round_half_even_mono) simp
    then have mb: "2 ^ 52 \<le> round_half_even (b / 2 powi eb)"
      by (simp only: round_half_even_of_int)
    have "(of_int (2 ^ 52) :: rat) \<le> of_int (round_half_even (b / 2 powi eb))"
      using mb by (simp only: of_int_le_iff)
    then have "(of_int (2 ^ 52) :: rat) * 2 powi eb \<le> of_int (round_half_even (b / 2 powi eb)) * 2 powi eb"
      by (intro mult_right_mono) simp_all
    then have lb: "2 powi (eb + 52) \<le> nearest_double b"
      by (simp add: nearest_double_def eb_def [symmetric] power_int_add mult.commute)
    have "ea + 53 \<le> eb + 52" using lt by simp
    then have "(2::rat) powi (ea + 53) \<le> 2 powi (eb + 52)"
      by (intro power_int_increasing) simp_all
    with ua lb show ?thesis by linarith
  qed
qed

lemma nearest_double_nonneg: "0 \<le> a \<Longrightarrow> 0 \<le> nearest_double a"
proof -
  assume a: "0 \<le> a"
  then have "0 \<le> a / 2 powi double_exponent a" by simp
  then have "0 \<le> \<lfloor>a / 2 powi double_exponent a\<rfloor>" by simp
  with round_half_even_floor [of "a / 2 powi double_exponent a"]
  have "0 \<le> round_half_even (a / 2 powi double_exponent a)" by linarith
  then show ?thesis by (simp add: nearest_double_def)
qed

lemma nearest_double_100: "nearest_double 100 = 100"
  by code_simp

lemma to_double_percent:
  assumes "0 \<le> x" and "x \<le> 100"
  shows "to_double x = Num (if x = 0 then 0 else nearest_double x) \<and>
    0 \<le> (if x = 0 then 0 else nearest_double x) \<and>
    (if x = 0 then 0 else nearest_double x) \<le> 100"
proof (cases "x = 0")
  case True
  then show ?thesis by (simp add: to_double_def)
next
  case False
  with assms have pos: "0 < x" by simp
  have "nearest_double x \<le> nearest_double 100"
    using pos assms(2) by (rule nearest_double_mono)
  then have u: "nearest_double x \<le> 100" by (simp add: nearest_double_100)
  have "(100::rat) < 2 ^ 1024" by simp
  with u have "\<not> 2 ^ 1024 \<le> nearest_double x" by linarith
  with pos u nearest_double_nonneg [of x] show ?thesis
    by (simp add: to_double_def)
qed

text \<open>
  For a ratio between 0 and 1 the number shown is an integer between 0 and 100, and a
  larger ratio shows a larger or equal number.
\<close>

lemma percent_bounds:
  assumes "0 \<le> r" and "r \<le> 1"
  shows "le_number (Num 0) (Math_round (times_number (Num r) (Num 100))) \<and>
    le_number (Math_round (times_number (Num r) (Num 100))) (Num 100)"
proof -
  have x: "0 \<le> r * 100" "r * 100 \<le> 100" using assms by simp_all
  define v where "v = (if r * 100 = 0 then 0 else nearest_double (r * 100))"
  from to_double_percent [OF x] have t: "to_double (r * 100) = Num v" and v: "0 \<le> v" "v \<le> 100"
    by (simp_all add: v_def)
  have "0 \<le> \<lfloor>v + 1 / 2\<rfloor>" using v(1) by simp
  moreover have "\<lfloor>v + 1 / 2\<rfloor> \<le> 100" using v(2) by (simp add: floor_le_iff)
  ultimately show ?thesis
    by (simp add: t)
qed

lemma percent_mono:
  assumes "0 \<le> r" and "r \<le> r'" and "r' \<le> 1"
  shows "le_number (Math_round (times_number (Num r) (Num 100)))
    (Math_round (times_number (Num r') (Num 100)))"
proof -
  have x: "0 \<le> r * 100" "r * 100 \<le> 100" using assms by simp_all
  have y: "0 \<le> r' * 100" "r' * 100 \<le> 100" using assms by simp_all
  define v where "v = (if r * 100 = 0 then 0 else nearest_double (r * 100))"
  define w where "w = (if r' * 100 = 0 then 0 else nearest_double (r' * 100))"
  from to_double_percent [OF x] have t: "to_double (r * 100) = Num v"
    by (simp add: v_def)
  from to_double_percent [OF y] have u: "to_double (r' * 100) = Num w" and w: "0 \<le> w"
    by (simp_all add: w_def)
  have "v \<le> w"
  proof (cases "r * 100 = 0")
    case True
    with w show ?thesis by (simp add: v_def)
  next
    case False
    with x have pos: "0 < r * 100" by simp
    moreover have le: "r * 100 \<le> r' * 100" using assms(2) by simp
    ultimately have "nearest_double (r * 100) \<le> nearest_double (r' * 100)"
      by (rule nearest_double_mono)
    moreover have "r' * 100 \<noteq> 0" using pos le by simp
    ultimately show ?thesis using False by (simp add: v_def w_def)
  qed
  then have "\<lfloor>v + 1 / 2\<rfloor> \<le> \<lfloor>w + 1 / 2\<rfloor>" by (intro floor_mono) simp
  then show ?thesis by (simp add: t u)
qed

lemma le_number_trans: "le_number a b \<Longrightarrow> le_number b c \<Longrightarrow> le_number a c"
  by (cases a; cases b; cases c) simp_all

lemma le_number_refl: "le_number a b \<Longrightarrow> le_number b b"
  by (cases a; cases b) simp_all

text \<open>Some ratios and what is shown for them.\<close>

lemma to_double_finite:
  assumes "0 < x" and "nearest_double x = v" and "v < 2 ^ 1024"
  shows "to_double x = Num v"
  using assms by (simp add: to_double_def)

lemma nearest_double_samples:
  "nearest_double 25 = 25"
  "nearest_double 50 = 50"
  "nearest_double 75 = 75"
  "nearest_double 200 = 200"
  by code_simp+

lemma to_double_samples:
  "to_double 25 = Num 25"
  "to_double 50 = Num 50"
  "to_double 75 = Num 75"
  "to_double 100 = Num 100"
  "to_double 200 = Num 200"
  by (rule to_double_finite; simp add: nearest_double_samples nearest_double_100)+

lemma percent_samples:
  "Math_round (times_number (Num (1 / 4)) (Num 100)) = Num 25"
  "Math_round (times_number (Num (1 / 2)) (Num 100)) = Num 50"
  "Math_round (times_number (Num (3 / 4)) (Num 100)) = Num 75"
  "Math_round (times_number (Num 1) (Num 100)) = Num 100"
  "Math_round (times_number (Num 2) (Num 100)) = Num 200"
  by (simp_all add: to_double_samples floor_eq_iff)

text \<open>
  The product is rounded before \<open>Math.round\<close> sees it: for the number nearest to
  0.015 the exact product is below 1.5, the rounded product is 1.5, and 2 is shown.
\<close>

lemma rounded_product: "to_double (1080863910568919 / 2 ^ 56 * 100) = Num (3 / 2)"
proof (rule to_double_finite)
  show "0 < 1080863910568919 / 2 ^ 56 * (100::rat)" by simp
  show "nearest_double (1080863910568919 / 2 ^ 56 * 100) = 3 / 2" by code_simp
  show "(3 / 2 :: rat) < 2 ^ 1024" by simp
qed

lemma percent_of_rounded_product:
  "1080863910568919 / 2 ^ 56 * 100 < (3 / 2 :: rat)"
  "times_number (Num (1080863910568919 / 2 ^ 56)) (Num 100) = Num (3 / 2)"
  "Math_round (times_number (Num (1080863910568919 / 2 ^ 56)) (Num 100)) = Num 2"
proof -
  show "1080863910568919 / 2 ^ 56 * 100 < (3 / 2 :: rat)" by simp
  show t: "times_number (Num (1080863910568919 / 2 ^ 56)) (Num 100) = Num (3 / 2)"
    by (simp only: times_number.simps rounded_product)
  show "Math_round (times_number (Num (1080863910568919 / 2 ^ 56)) (Num 100)) = Num 2"
    unfolding t by (simp add: floor_eq_iff)
qed

section \<open>The argument list of a conversion\<close>

text \<open>
  For every input name and every output format the argument list built by
  \<open>convertVideo\<close> is outside the described shape: it is the complete default command
  followed by a second group of codec flags and a second output name.
\<close>

lemma command_outside_spec_shape: "\<not> spec_shape i (outputName fmt) (command i fmt)"
  by (simp add: command_def spec_shape_def outputName_def)

text \<open>
  Claim C1. The argument list passed to the engine's execute call should have the shape
  \<open>-i <input> [-c:v <codec>] [-c:a <codec>] [-preset <name>] <output>\<close>, each flag group
  at most once and the output name as the single final token. For \<open>clip.mov\<close>
  converted to mp4 the code builds sixteen tokens: the flags \<open>-c:v\<close>, \<open>-c:a\<close> and
  \<open>-preset\<close> occur twice each, and the output name occurs twice, once in the middle.
\<close>

theorem command_mp4_repeats_flags_and_output:
  "command (inputName clip_mov) ''mp4'' =
     [''-i'', ''input.mov'', ''-c:v'', ''libx264'', ''-c:a'', ''aac'', ''-preset'', ''medium'',
      ''output.mp4'', ''-c:v'', ''libx264'', ''-c:a'', ''aac'', ''-preset'', ''medium'',
      ''output.mp4''] \<and>
   count_list (command (inputName clip_mov) ''mp4'') ''-c:v'' = 2 \<and>
   count_list (command (inputName clip_mov) ''mp4'') ''-c:a'' = 2 \<and>
   count_list (command (inputName clip_mov) ''mp4'') ''-preset'' = 2 \<and>
   count_list (command (inputName clip_mov) ''mp4'') ''output.mp4'' = 2 \<and>
   \<not> spec_shape ''input.mov'' ''output.mp4'' (command (inputName clip_mov) ''mp4'')"
  by (simp add: model_defs sample_defs spec_shape_def)

section \<open>Failed conversions\<close>





section \<open>Blob URLs\<close>

lemma step_keeps_objectURLs: "set (objectURLs s) \<subseteq> set (objectURLs (step s e))"
proof (cases e)
  case (Settles i r)
  show ?thesis
  proof (cases "i < length (pending s)")
    case True
    then show ?thesis
      using Settles
      by (cases "pending s ! i"; cases r)
         (auto simp: loadFFmpeg_catch_def loadFFmpeg_finally_def loadFFmpeg_imported_def
            loadFFmpeg_loaded_def convertVideo_settled_def convertVideo_finally_def
            createObjectURL_def Let_def)
  next
    case False
    then show ?thesis by (simp add: Settles)
  qed
next
  case (Emits ev)
  then show ?thesis by (cases ev) (auto simp: on_log_def on_progress_def)
qed (auto simp: loadFFmpeg_begin_def handleFileSelect_def convertVideo_begin_def
       resetConverter_def downloadFile_def split: option.splits)

text \<open>
  Claim C3, as amended. When the user resets or selects a new file, the converted
  file is discarded (\<open>convertedFile\<close> becomes empty) but its blob URL is not released:
  both actions leave the registered blob URLs as they were, and no event of the
  component ever removes a registered blob URL.
\<close>

theorem discard_keeps_blob_url:
  "convertedFile (resetConverter s) = None \<and>
   objectURLs (resetConverter s) = objectURLs s \<and>
   convertedFile (handleFileSelect (Some f) s) = None \<and>
   objectURLs (handleFileSelect (Some f) s) = objectURLs s \<and>
   set (objectURLs s) \<subseteq> set (objectURLs (step s e))"
  using step_keeps_objectURLs [of s e] by (simp add: resetConverter_def handleFileSelect_def)

theorem discard_keeps_blob_url_witness:
  "convertedFile (run converted_session) = Some webm_artifact \<and>
   convertedFile (resetConverter (run converted_session)) = None \<and>
   objectURLs (resetConverter (run converted_session)) = [(url webm_artifact, blob webm_artifact)] \<and>
   convertedFile (handleFileSelect (Some holiday_avi) (run converted_session)) = None \<and>
   objectURLs (handleFileSelect (Some holiday_avi) (run converted_session))
     = [(url webm_artifact, blob webm_artifact)]"
  using discard_keeps_blob_url [of "run converted_session" holiday_avi ClickReset]
  by (simp add: converted_state webm_artifact_def)

text \<open>
  The claim as first stated fails: after a reset, and after the selection of another
  file, the blob URL of the discarded artifact is still registered.
\<close>

theorem blob_url_not_released_counterexample:
  "convertedFile (run converted_session) = Some webm_artifact \<and>
   url webm_artifact \<in> fst ` set (objectURLs (run converted_session)) \<and>
   convertedFile (run (converted_session @ [ClickReset])) = None \<and>
   url webm_artifact \<in> fst ` set (objectURLs (run (converted_session @ [ClickReset]))) \<and>
   convertedFile (run (converted_session @ [ChooseFile (Some holiday_avi)])) = None \<and>
   url webm_artifact
     \<in> fst ` set (objectURLs (run (converted_session @ [ChooseFile (Some holiday_avi)])))"
  by (simp add: run_snoc converted_state resetConverter_def handleFileSelect_def
        webm_artifact_def clip_mov_def)

section \<open>Selecting a file\<close>

text \<open>
  Claim C4. Selecting a file makes it the current file, clears the converted file and
  the error message and sets the progress to 0, whatever the state was; the same holds
  for the selection event on the rendered panel, where the file input exists once the
  engine is loaded.
\<close>

theorem select_file_clears:
  "file (handleFileSelect (Some f) s) = Some f \<and>
   convertedFile (handleFileSelect (Some f) s) = None \<and>
   error (handleFileSelect (Some f) s) = [] \<and>
   progress (handleFileSelect (Some f) s) = Num 0 \<and>
   (isFFmpegLoaded s \<longrightarrow>
      file (step s (ChooseFile (Some f))) = Some f \<and>
      convertedFile (step s (ChooseFile (Some f))) = None \<and>
      error (step s (ChooseFile (Some f))) = [] \<and>
      progress (step s (ChooseFile (Some f))) = Num 0)"
  by (simp add: handleFileSelect_def)

theorem select_file_clears_witness:
  "isFFmpegLoaded (run failed_session) \<and>
   file (run failed_session) = Some clip_mov \<and>
   convertedFile (run failed_session) = Some webm_artifact \<and>
   error (run failed_session) = ''Failed to load FFmpeg: boom'' \<and>
   file (step (run failed_session) (ChooseFile (Some holiday_avi))) = Some holiday_avi \<and>
   convertedFile (step (run failed_session) (ChooseFile (Some holiday_avi))) = None \<and>
   error (step (run failed_session) (ChooseFile (Some holiday_avi))) = [] \<and>
   progress (step (run failed_session) (ChooseFile (Some holiday_avi))) = Num 0"
proof -
  have h: "isFFmpegLoaded (run failed_session) \<and> file (run failed_session) = Some clip_mov \<and>
      convertedFile (run failed_session) = Some webm_artifact \<and>
      error (run failed_session) = ''Failed to load FFmpeg: boom''"
    by (simp add: failed_state)
  show ?thesis
    using h select_file_clears [of holiday_avi "run failed_session"] by simp
qed

section \<open>The converted file\<close>

text \<open>
  On success the blob is tagged \<open>video/<format>\<close> and the name is built from the text
  before the first dot of the file name, for every file and format.
\<close>

lemma converted_file_of_success:
  "convertedFile (convertVideo_settled f fmt (Inr data) s) =
     Some \<lparr>blob = \<lparr>blob_data = data, blob_type = ''video/'' @ fmt\<rparr>,
           name = first_elem (split_str (file_name f) CHR ''.'') @ '' .  '' @ fmt,
           url = length (objectURLs s)\<rparr>"
  by (simp add: convertVideo_settled_def convertVideo_finally_def createObjectURL_def
        blobType_def convertedName_def Let_def)

text \<open>
  Claim C5. A successful conversion should give a blob of type \<open>video/<format>\<close> and a
  name made of the original base name, a dot and the new extension. Converting
  \<open>clip.mov\<close> to webm gives the type \<open>video/webm\<close>, but the name is \<open>clip .  webm\<close>,
  with a space before the dot and two after it: it does not end in \<open>.webm\<close> and is not
  \<open>clip.webm\<close>.
\<close>

theorem converted_name_has_stray_spaces:
  "convertedFile (run converted_session) =
     Some \<lparr>blob = \<lparr>blob_data = [7], blob_type = ''video/webm''\<rparr>,
           name = ''clip .  webm'', url = 0\<rparr> \<and>
   convertedFile (convertVideo (working_engine [7]) (run (ready_session @ [ChooseFormat ''webm''])))
     = convertedFile (run converted_session) \<and>
   convertedName clip_mov ''webm'' = ''clip .  webm'' \<and>
   \<not> suffix ''.webm'' (convertedName clip_mov ''webm'') \<and>
   convertedName clip_mov ''webm'' \<noteq> ''clip.webm''"
  by (simp add: converted_state run_snoc ready_state webm_artifact_def convertVideo_def
        engine_calls_def working_engine_def model_defs clip_mov_def suffix_def)

section \<open>One asynchronous call at a time\<close>

text \<open>
  A step of the panel keeps at most one call suspended, and keeps \<open>isLoading\<close> set
  while one is: the two buttons that start a call are disabled while \<open>isLoading\<close>, and
  only the end of a call clears it.
\<close>

lemma step_keeps_single_task:
  assumes "length (pending s) \<le> 1" and "pending s \<noteq> [] \<longrightarrow> isLoading s"
  shows "length (pending (step s e)) \<le> 1 \<and>
    (pending (step s e) \<noteq> [] \<longrightarrow> isLoading (step s e))"
proof (cases e)
  case ClickLoad
  with assms show ?thesis by (auto simp: loadFFmpeg_begin_def)
next
  case (ChooseFile sel)
  with assms show ?thesis by (auto simp: handleFileSelect_def split: option.splits)
next
  case (ChooseFormat v)
  with assms show ?thesis by auto
next
  case ClickConvert
  with assms show ?thesis by (auto simp: convertVideo_begin_def split: option.splits)
next
  case ClickReset
  with assms show ?thesis by (auto simp: resetConverter_def)
next
  case ClickDownload
  with assms show ?thesis by (auto simp: downloadFile_def split: option.splits)
next
  case (Emits ev)
  with assms show ?thesis by (cases ev) (auto simp: on_log_def on_progress_def)
next
  case (Settles i r)
  show ?thesis
  proof (cases "i < length (pending s)")
    case False
    with Settles assms show ?thesis by simp
  next
    case True
    with assms(1) obtain t where p: "pending s = [t]" and i: "i = 0"
      by (cases "pending s") auto
    from assms(2) p have l: "isLoading s" by simp
    show ?thesis
      using Settles p i l
      by (cases t; cases r)
         (simp_all add: loadFFmpeg_catch_def loadFFmpeg_finally_def loadFFmpeg_imported_def
            loadFFmpeg_loaded_def convertVideo_settled_def convertVideo_finally_def
            createObjectURL_def Let_def)
  qed
qed

lemma run_single_task:
  "length (pending (run evs)) \<le> 1 \<and> (pending (run evs) \<noteq> [] \<longrightarrow> isLoading (run evs))"
proof (induction evs rule: rev_induct)
  case Nil
  show ?case by (simp add: run_def initial_def)
next
  case (snoc e evs)
  then show ?case
    using step_keeps_single_task [of "run evs" e] by (simp add: run_snoc)
qed

text \<open>
  The two asynchronous functions themselves do not look at \<open>isLoading\<close>: called
  directly in a state where it is set, each would start again. What keeps a second
  call from happening is the disabled button.
\<close>

lemma begin_functions_ignore_isLoading:
  "\<not> isFFmpegLoaded s \<Longrightarrow> logs (loadFFmpeg_begin s) = logs s @ [''Loading FFmpeg...'']"
  "file s \<noteq> None \<Longrightarrow> isFFmpegLoaded s \<Longrightarrow>
     logs (convertVideo_begin s) = logs s @ [''Starting conversion to '' @ outputFormat s @ ''...'']"
  by (simp_all add: loadFFmpeg_begin_def convertVideo_begin_def)

text \<open>
  Claim C6. Loading is idempotent. When the engine is already loaded, \<open>loadFFmpeg\<close>
  returns at once: the whole state, with the engine instance and the number of
  instances created, is unchanged. In every state the panel can reach, a click on the
  load button while a load is in flight changes nothing (the button is disabled while
  \<open>isLoading\<close>), so no second initialisation starts, and at most one load is in
  flight.
\<close>

theorem load_idempotent:
  "(isFFmpegLoaded s \<longrightarrow>
      loadFFmpeg eng s = s \<and> loadFFmpeg_begin s = s \<and> step s ClickLoad = s) \<and>
   ((\<exists>t \<in> set (pending (run evs)). is_load t) \<longrightarrow> step (run evs) ClickLoad = run evs) \<and>
   length (filter is_load (pending (run evs))) \<le> 1"
proof -
  have a: "isFFmpegLoaded s \<longrightarrow>
      loadFFmpeg eng s = s \<and> loadFFmpeg_begin s = s \<and> step s ClickLoad = s"
    by (simp add: loadFFmpeg_def loadFFmpeg_begin_def)
  have b: "(\<exists>t \<in> set (pending (run evs)). is_load t) \<longrightarrow> step (run evs) ClickLoad = run evs"
    using run_single_task [of evs] by auto
  have "length (filter is_load (pending (run evs))) \<le> length (pending (run evs))"
    by (rule length_filter_le)
  with run_single_task [of evs] have c: "length (filter is_load (pending (run evs))) \<le> 1"
    by linarith
  from a b c show ?thesis by blast
qed

theorem load_idempotent_witness:
  "isFFmpegLoaded (run ready_session) \<and>
   loadFFmpeg (working_engine []) (run ready_session) = run ready_session \<and>
   (\<exists>t \<in> set (pending (run [ClickLoad])). is_load t) \<and>
   step (run [ClickLoad]) ClickLoad = run [ClickLoad] \<and>
   (\<exists>t \<in> set (pending (run [ClickLoad, Settles 0 (Inr [])])). is_load t) \<and>
   step (run [ClickLoad, Settles 0 (Inr [])]) ClickLoad = run [ClickLoad, Settles 0 (Inr [])]"
proof -
  have h1: "isFFmpegLoaded (run ready_session)"
    by (simp add: ready_state)
  have h2: "\<exists>t \<in> set (pending (run [ClickLoad])). is_load t"
    by (simp add: run_def initial_def model_defs)
  have h3: "\<exists>t \<in> set (pending (run [ClickLoad, Settles 0 (Inr [])])). is_load t"
    by (simp add: run_def initial_def model_defs)
  show ?thesis
    using h1 h2 h3
      load_idempotent [of "run ready_session" "working_engine []" "[ClickLoad]"]
      load_idempotent [of "run ready_session" "working_engine []" "[ClickLoad, Settles 0 (Inr [])]"]
    by blast
qed

section \<open>Progress\<close>

text \<open>
  While \<open>isLoading\<close> is set, a quiet event keeps it set and either leaves the progress
  as it is or is a progress event, which sets it to the rounded percentage.
\<close>

lemma quiet_step:
  assumes "isLoading s" and "quiet e"
  shows "isLoading (step s e) \<and>
    (progress (step s e) = progress s \<or>
     (\<exists>ratio. e = Emits (ProgressEvent ratio) \<and>
        progress (step s e) = Math_round (times_number ratio (Num 100))))"
proof (cases e)
  case ClickLoad
  with assms show ?thesis by simp
next
  case (ChooseFile sel)
  with assms show ?thesis by (simp add: handleFileSelect_def)
next
  case (ChooseFormat v)
  with assms show ?thesis by simp
next
  case ClickConvert
  with assms show ?thesis by (simp split: option.splits)
next
  case ClickReset
  with assms show ?thesis by simp
next
  case ClickDownload
  with assms show ?thesis by (simp add: downloadFile_def split: option.splits)
next
  case (Emits ev)
  with assms show ?thesis by (cases ev) (simp_all add: on_log_def on_progress_def)
next
  case (Settles i r)
  with assms show ?thesis by simp
qed

lemma reported_other:
  "(\<And>ratio. e \<noteq> Emits (ProgressEvent ratio)) \<Longrightarrow> reported (e # es) = reported es"
proof (cases e)
  case (Emits ev)
  assume "\<And>ratio. e \<noteq> Emits (ProgressEvent ratio)"
  with Emits show ?thesis by (cases ev) simp_all
qed simp_all

lemma quiet_trace:
  assumes "isLoading s"
    and "le_number (Num 0) (progress s)" and "le_number (progress s) (Num 100)"
    and "list_all quiet evs" and "reported evs = map Num rs" and "sorted rs"
    and "\<forall>r \<in> set rs. 0 \<le> r \<and> r \<le> 1 \<and>
           le_number (progress s) (Math_round (times_number (Num r) (Num 100)))"
  shows "sorted_wrt le_number (progress s # map progress (step_trace s evs)) \<and>
    (\<forall>p \<in> set (map progress (step_trace s evs)). le_number (Num 0) p \<and> le_number p (Num 100))"
  using assms
proof (induction evs arbitrary: s rs)
  case Nil
  show ?case by simp
next
  case (Cons e es)
  define s' where "s' = step s e"
  have qe: "quiet e" and qes: "list_all quiet es" using Cons.prems(4) by simp_all
  from quiet_step [OF Cons.prems(1) qe]
  have l': "isLoading s'"
    and p': "progress s' = progress s \<or>
      (\<exists>ratio. e = Emits (ProgressEvent ratio) \<and>
         progress s' = Math_round (times_number ratio (Num 100)))"
    by (simp_all add: s'_def)
  have refl: "le_number (progress s) (progress s)"
    using Cons.prems(2) by (rule le_number_refl)
  have "\<exists>rs'. reported es = map Num rs' \<and> sorted rs' \<and>
      le_number (progress s) (progress s') \<and>
      le_number (Num 0) (progress s') \<and> le_number (progress s') (Num 100) \<and>
      (\<forall>r \<in> set rs'. 0 \<le> r \<and> r \<le> 1 \<and>
         le_number (progress s') (Math_round (times_number (Num r) (Num 100))))"
  proof (cases "\<exists>ratio. e = Emits (ProgressEvent ratio)")
    case False
    then have "reported (e # es) = reported es" by (intro reported_other) simp
    moreover have "progress s' = progress s" using p' False by blast
    ultimately show ?thesis
      using Cons.prems(2,3,5,6,7) refl by (intro exI [of _ rs]) simp
  next
    case True
    then obtain ratio where e: "e = Emits (ProgressEvent ratio)" by blast
    with Cons.prems(5) obtain r rs' where rs: "rs = r # rs'" and ratio: "ratio = Num r"
      and rest: "reported es = map Num rs'"
      by (cases rs) auto
    have srt: "sorted rs'" and ge: "\<forall>x \<in> set rs'. r \<le> x"
      using Cons.prems(6) rs by simp_all
    have r: "0 \<le> r" "r \<le> 1"
      and rl: "le_number (progress s) (Math_round (times_number (Num r) (Num 100)))"
      using Cons.prems(7) rs by simp_all
    have old: "\<forall>x \<in> set rs'. 0 \<le> x \<and> x \<le> 1 \<and>
        le_number (progress s) (Math_round (times_number (Num x) (Num 100)))"
      using Cons.prems(7) rs by simp
    from p' show ?thesis
    proof
      assume "progress s' = progress s"
      then show ?thesis
        using rest srt old Cons.prems(2,3) refl by auto
    next
      assume "\<exists>ratio. e = Emits (ProgressEvent ratio) \<and>
          progress s' = Math_round (times_number ratio (Num 100))"
      with e ratio have ps: "progress s' = Math_round (times_number (Num r) (Num 100))"
        by simp
      have "\<forall>x \<in> set rs'. 0 \<le> x \<and> x \<le> 1 \<and>
          le_number (progress s') (Math_round (times_number (Num x) (Num 100)))"
        using old ge r(1) percent_mono unfolding ps by blast
      then show ?thesis
        using rest srt rl percent_bounds [OF r] unfolding ps by blast
    qed
  qed
  then obtain rs' where rest: "reported es = map Num rs'" and srt: "sorted rs'"
    and step: "le_number (progress s) (progress s')"
    and b0: "le_number (Num 0) (progress s')" and b1: "le_number (progress s') (Num 100)"
    and all: "\<forall>r \<in> set rs'. 0 \<le> r \<and> r \<le> 1 \<and>
         le_number (progress s') (Math_round (times_number (Num r) (Num 100)))"
    by blast
  from Cons.IH [OF l' b0 b1 qes rest srt all]
  have ih1: "sorted_wrt le_number (progress s' # map progress (step_trace s' es))"
    and ih2: "\<forall>p \<in> set (map progress (step_trace s' es)).
        le_number (Num 0) p \<and> le_number p (Num 100)"
    by simp_all
  have later: "\<forall>p \<in> set (map progress (step_trace s' es)). le_number (progress s) p"
    using ih1 step le_number_trans by (auto simp del: set_map)
  show ?case
    using ih1 ih2 later step b0 b1 by (simp add: s'_def [symmetric] del: set_map)
qed

text \<open>
  Claim C7, as amended. Each progress event of the engine sets the progress indicator
  to \<open>Math.round(ratio * 100)\<close> of the reported ratio and nothing else: no smoothing,
  no interpolation, no clamping and no ordering. A reset and a file selection set the
  indicator back to 0, also during a job. Hence, from the start of a job and as long
  as the job has not ended and the user neither resets nor selects a file, the values
  exposed are non-decreasing and within 0 and 100 whenever the ratios the engine
  reports are non-decreasing and within 0 and 1.
\<close>

theorem progress_relayed_unsmoothed:
  "(ffmpegRef s \<noteq> None \<longrightarrow>
      progress (step s (Emits (ProgressEvent ratio))) = Math_round (times_number ratio (Num 100))) \<and>
   (file s \<noteq> None \<longrightarrow> progress (step s ClickReset) = Num 0) \<and>
   (isFFmpegLoaded s \<longrightarrow> progress (step s (ChooseFile (Some f))) = Num 0) \<and>
   (file s \<noteq> None \<and> isFFmpegLoaded s \<and> \<not> isLoading s \<and>
    list_all quiet evs \<and> reported evs = map Num rs \<and>
    sorted rs \<and> (\<forall>r \<in> set rs. 0 \<le> r \<and> r \<le> 1) \<longrightarrow>
      progress (step s ClickConvert) = Num 0 \<and>
      sorted_wrt le_number
        (map progress (step s ClickConvert # step_trace (step s ClickConvert) evs)) \<and>
      (\<forall>p \<in> set (map progress (step s ClickConvert # step_trace (step s ClickConvert) evs)).
         le_number (Num 0) p \<and> le_number p (Num 100)))"
proof -
  have a: "ffmpegRef s \<noteq> None \<longrightarrow>
      progress (step s (Emits (ProgressEvent ratio))) = Math_round (times_number ratio (Num 100))"
    by (simp add: on_progress_def)
  have b: "file s \<noteq> None \<longrightarrow> progress (step s ClickReset) = Num 0"
    by (simp add: resetConverter_def)
  have c: "isFFmpegLoaded s \<longrightarrow> progress (step s (ChooseFile (Some f))) = Num 0"
    by (simp add: handleFileSelect_def)
  have d: "progress (step s ClickConvert) = Num 0 \<and>
      sorted_wrt le_number
        (map progress (step s ClickConvert # step_trace (step s ClickConvert) evs)) \<and>
      (\<forall>p \<in> set (map progress (step s ClickConvert # step_trace (step s ClickConvert) evs)).
         le_number (Num 0) p \<and> le_number p (Num 100))"
    if h: "file s \<noteq> None \<and> isFFmpegLoaded s \<and> \<not> isLoading s \<and>
      list_all quiet evs \<and> reported evs = map Num rs \<and>
      sorted rs \<and> (\<forall>r \<in> set rs. 0 \<le> r \<and> r \<le> 1)"
  proof -
    define s1 where "s1 = step s ClickConvert"
    from h have l: "isLoading s1" and p: "progress s1 = Num 0"
      by (auto simp: s1_def convertVideo_begin_def)
    have all: "\<forall>r \<in> set rs. 0 \<le> r \<and> r \<le> 1 \<and>
        le_number (progress s1) (Math_round (times_number (Num r) (Num 100)))"
      using h percent_bounds unfolding p by blast
    have "sorted_wrt le_number (progress s1 # map progress (step_trace s1 evs)) \<and>
        (\<forall>p \<in> set (map progress (step_trace s1 evs)). le_number (Num 0) p \<and> le_number p (Num 100))"
      using h all by (intro quiet_trace [OF l, of evs rs]) (simp_all add: p)
    with p have "progress s1 = Num 0 \<and>
        sorted_wrt le_number (map progress (s1 # step_trace s1 evs)) \<and>
        (\<forall>p \<in> set (map progress (s1 # step_trace s1 evs)).
           le_number (Num 0) p \<and> le_number p (Num 100))"
      by (simp del: set_map)
    then show ?thesis unfolding s1_def .
  qed
  from a b c d show ?thesis by blast
qed

theorem progress_relayed_unsmoothed_witness:
  "ffmpegRef (run ready_session) \<noteq> None \<and> file (run ready_session) \<noteq> None \<and>
   isFFmpegLoaded (run ready_session) \<and> \<not> isLoading (run ready_session) \<and>
   list_all quiet job_events \<and> reported job_events = map Num [1 / 4, 1 / 2, 1] \<and>
   sorted [1 / 4, 1 / 2, 1 :: rat] \<and>
   list_all (\<lambda>r. 0 \<le> r \<and> r \<le> 1) [1 / 4, 1 / 2, 1 :: rat] \<and>
   progress (step (run ready_session) (Emits (ProgressEvent (Num (1 / 2))))) = Num 50 \<and>
   progress (step (run ready_session) ClickReset) = Num 0 \<and>
   progress (step (run ready_session) (ChooseFile (Some holiday_avi))) = Num 0 \<and>
   map progress
     (step (run ready_session) ClickConvert
        # step_trace (step (run ready_session) ClickConvert) job_events)
     = [Num 0, Num 0, Num 25, Num 25, Num 25, Num 50, Num 50, Num 100] \<and>
   sorted_wrt le_number
     (map progress
        (step (run ready_session) ClickConvert
           # step_trace (step (run ready_session) ClickConvert) job_events))"
proof -
  have h: "ffmpegRef (run ready_session) \<noteq> None \<and> file (run ready_session) \<noteq> None \<and>
      isFFmpegLoaded (run ready_session) \<and> \<not> isLoading (run ready_session) \<and>
      list_all quiet job_events \<and> reported job_events = map Num [1 / 4, 1 / 2, 1] \<and>
      sorted [1 / 4, 1 / 2, 1 :: rat] \<and> (\<forall>r \<in> set [1 / 4, 1 / 2, 1 :: rat]. 0 \<le> r \<and> r \<le> 1)"
    by (simp add: ready_state job_events_def)
  have v: "map progress
      (step (run ready_session) ClickConvert
         # step_trace (step (run ready_session) ClickConvert) job_events)
      = [Num 0, Num 0, Num 25, Num 25, Num 25, Num 50, Num 50, Num 100]"
    by (simp add: ready_state job_events_def convertVideo_begin_def on_log_def on_progress_def
          downloadFile_def formats_def to_double_samples floor_eq_iff)
  have p: "Math_round (times_number (Num (1 / 2)) (Num 100)) = Num 50"
    by (rule percent_samples)
  show ?thesis
    using h v p
      progress_relayed_unsmoothed [of "run ready_session" "Num (1 / 2)" holiday_avi job_events
        "[1 / 4, 1 / 2, 1]"]
    by simp
qed

text \<open>
  The claim as first stated fails. An engine that reports the ratios 1/2, 1/4 and 2
  during one job makes the component expose 50, then 25, then 200; and with the
  ratios 1/2 and 3/4 and a reset between them it exposes 50, then 0, then 75.
\<close>

theorem progress_not_monotone_counterexample:
  "map progress
     (step_trace (step (run ready_session) ClickConvert)
        [Emits (ProgressEvent (Num (1 / 2))), Emits (ProgressEvent (Num (1 / 4))),
         Emits (ProgressEvent (Num 2))])
     = [Num 50, Num 25, Num 200] \<and>
   map progress
     (step_trace (step (run ready_session) ClickConvert)
        [Emits (ProgressEvent (Num (1 / 2))), ClickReset, Emits (ProgressEvent (Num (3 / 4)))])
     = [Num 50, Num 0, Num 75] \<and>
   \<not> le_number (Num 50) (Num 25) \<and> \<not> le_number (Num 200) (Num 100) \<and>
   \<not> le_number (Num 50) (Num 0)"
  by (simp add: ready_state convertVideo_begin_def on_progress_def resetConverter_def
        to_double_samples floor_eq_iff)

section \<open>No concurrent conversions\<close>

text \<open>
  Claim C8. Two conversions never run concurrently. In every state the panel can
  reach, a click on the convert button while a conversion is in flight leaves the whole
  state unchanged, so nothing is started and nothing is queued (the button is disabled
  while \<open>isLoading\<close>), and at most one conversion is in flight.
\<close>

theorem convert_never_concurrent:
  "((\<exists>t \<in> set (pending (run evs)). is_convert t) \<longrightarrow> step (run evs) ClickConvert = run evs) \<and>
   length (filter is_convert (pending (run evs))) \<le> 1"
proof -
  have b: "(\<exists>t \<in> set (pending (run evs)). is_convert t) \<longrightarrow>
      step (run evs) ClickConvert = run evs"
    using run_single_task [of evs] by (auto split: option.splits)
  have "length (filter is_convert (pending (run evs))) \<le> length (pending (run evs))"
    by (rule length_filter_le)
  with run_single_task [of evs] have c: "length (filter is_convert (pending (run evs))) \<le> 1"
    by linarith
  from b c show ?thesis by blast
qed

theorem convert_never_concurrent_witness:
  "pending (run (ready_session @ [ClickConvert])) = [AwaitConvert clip_mov ''mp4''] \<and>
   (\<exists>t \<in> set (pending (run (ready_session @ [ClickConvert]))). is_convert t) \<and>
   step (run (ready_session @ [ClickConvert])) ClickConvert = run (ready_session @ [ClickConvert])"
proof -
  have p: "pending (run (ready_session @ [ClickConvert])) = [AwaitConvert clip_mov ''mp4'']"
    by (simp add: run_snoc ready_state convertVideo_begin_def)
  then have h: "\<exists>t \<in> set (pending (run (ready_session @ [ClickConvert]))). is_convert t"
    by simp
  show ?thesis
    using p h convert_never_concurrent [of "ready_session @ [ClickConvert]"] by blast
qed

section \<open>The input handle\<close>

text \<open>
  Claim C9, as amended. The input handle is \<open>input.\<close> followed by the text after the
  last dot of the file name. A file name without a dot has no default handle: the
  handle is then \<open>input.\<close> followed by the whole file name.
\<close>

theorem inputName_from_last_dot:
  "inputName f = ''input.'' @ last (split_str (file_name f) CHR ''.'') \<and>
   (CHR ''.'' \<notin> set (file_name f) \<longrightarrow> inputName f = ''input.'' @ file_name f) \<and>
   (\<forall>p e. file_name f = p @ ''.'' @ e \<and> CHR ''.'' \<notin> set e \<longrightarrow> inputName f = ''input.'' @ e)"
  by (auto simp: inputName_def pop_def split_str_def split_from_nonempty split_from_no_sep
        last_split_from_append)

theorem inputName_from_last_dot_witness:
  "CHR ''.'' \<notin> set ''clip'' \<and>
   inputName \<lparr>file_name = ''clip'', file_data = []\<rparr> = ''input.clip'' \<and>
   CHR ''.'' \<notin> set ''mov'' \<and>
   inputName \<lparr>file_name = ''my.clip.mov'', file_data = []\<rparr> = ''input.mov''"
  using inputName_from_last_dot [of "\<lparr>file_name = ''clip'', file_data = []\<rparr>"]
    inputName_from_last_dot [of "\<lparr>file_name = ''my.clip.mov'', file_data = []\<rparr>",
      THEN conjunct2, THEN conjunct2, rule_format, of "''my.clip''" "''mov''"]
  by (simp add: split_str_def)

text \<open>
  The claim as first stated fails: two file names without an extension get two
  different handles, each made of the file name itself, so no default handle is used.
\<close>

theorem no_default_handle_counterexample:
  "CHR ''.'' \<notin> set ''clip'' \<and> CHR ''.'' \<notin> set ''movie'' \<and>
   inputName \<lparr>file_name = ''clip'', file_data = []\<rparr> = ''input.clip'' \<and>
   inputName \<lparr>file_name = ''movie'', file_data = []\<rparr> = ''input.movie''"
  by (simp add: inputName_def pop_def split_str_def)

section \<open>The end of a conversion\<close>

lemma settled_ends_idle:
  "progress (convertVideo_settled f fmt r s) = Num 0 \<and> \<not> isLoading (convertVideo_settled f fmt r s)"
  by (cases r)
     (simp_all add: convertVideo_settled_def convertVideo_finally_def createObjectURL_def Let_def)

text \<open>
  Claim C10. Every conversion that was started ends, on success and on failure alike,
  with the progress at 0 and \<open>isLoading\<close> cleared: for the whole call against any
  engine, and for the resumption of a suspended conversion in any state, whatever
  happened while it was suspended.
\<close>

theorem convert_ends_idle:
  "(file s \<noteq> None \<and> isFFmpegLoaded s \<longrightarrow>
      progress (convertVideo eng s) = Num 0 \<and> \<not> isLoading (convertVideo eng s)) \<and>
   (i < length (pending s) \<and> is_convert (pending s ! i) \<longrightarrow>
      progress (step s (Settles i r)) = Num 0 \<and> \<not> isLoading (step s (Settles i r)))"
proof -
  have a: "file s \<noteq> None \<and> isFFmpegLoaded s \<longrightarrow>
      progress (convertVideo eng s) = Num 0 \<and> \<not> isLoading (convertVideo eng s)"
    using settled_ends_idle by (auto simp: convertVideo_def split: option.splits prod.splits)
  have b: "i < length (pending s) \<and> is_convert (pending s ! i) \<longrightarrow>
      progress (step s (Settles i r)) = Num 0 \<and> \<not> isLoading (step s (Settles i r))"
    using settled_ends_idle by (cases "pending s ! i") auto
  from a b show ?thesis by blast
qed

theorem convert_ends_idle_witness:
  "file (run ready_session) \<noteq> None \<and> isFFmpegLoaded (run ready_session) \<and>
   progress (convertVideo (working_engine [7]) (run ready_session)) = Num 0 \<and>
   \<not> isLoading (convertVideo (working_engine [7]) (run ready_session)) \<and>
   progress (convertVideo (failing_engine ''boom'') (run ready_session)) = Num 0 \<and>
   \<not> isLoading (convertVideo (failing_engine ''boom'') (run ready_session)) \<and>
   0 < length (pending (run (ready_session @ [ClickConvert, Emits (ProgressEvent (Num 1))]))) \<and>
   is_convert (pending (run (ready_session @ [ClickConvert, Emits (ProgressEvent (Num 1))])) ! 0) \<and>
   progress (run (ready_session @ [ClickConvert, Emits (ProgressEvent (Num 1))])) = Num 100 \<and>
   progress
     (step (run (ready_session @ [ClickConvert, Emits (ProgressEvent (Num 1))])) (Settles 0 (Inr [7])))
     = Num 0 \<and>
   \<not> isLoading
     (step (run (ready_session @ [ClickConvert, Emits (ProgressEvent (Num 1))])) (Settles 0 (Inr [7])))"
proof -
  have h: "file (run ready_session) \<noteq> None \<and> isFFmpegLoaded (run ready_session)"
    by (simp add: ready_state)
  have g: "0 < length (pending (run (ready_session @ [ClickConvert, Emits (ProgressEvent (Num 1))]))) \<and>
      is_convert (pending (run (ready_session @ [ClickConvert, Emits (ProgressEvent (Num 1))])) ! 0) \<and>
      progress (run (ready_session @ [ClickConvert, Emits (ProgressEvent (Num 1))])) = Num 100"
    by (simp add: run_append ready_state convertVideo_begin_def on_progress_def
          to_double_samples floor_eq_iff)
  show ?thesis
    using h g convert_ends_idle [of "run ready_session" "working_engine [7]"]
      convert_ends_idle [of "run ready_session" "failing_engine ''boom''"]
      convert_ends_idle [of "run (ready_session @ [ClickConvert, Emits (ProgressEvent (Num 1))])"
        "working_engine [7]" 0 "Inr [7]"]
    by blast
qed

end
